theory Spec2Isabelle
  imports Complex_Main "HOL-Library.Multiset"
begin

section \<open>The layout visualiser: data model\<close>

text \<open>
  The script \<^verbatim>\<open>visualize_layout.py\<close> reads a parsed JSON document with a list of nodes
  (records with \<^verbatim>\<open>x\<close>, \<^verbatim>\<open>y\<close>, \<^verbatim>\<open>label\<close>) and a list of edges (triples
  \<^verbatim>\<open>[src, tgt, ty]\<close>), prints statistics line by line and then saves a three-panel figure.

  Coordinates are finite floating-point numbers in the script. They are idealised here as
  real numbers: arithmetic is exact, and there is no NaN and no infinity among the inputs.
  Degrees are \<^verbatim>\<open>int64\<close> in the script; a degree is at most twice the length of the edge
  list, which cannot reach \<open>2^63\<close>, so they are unbounded integers here.
\<close>

record node =
  node_x :: real
  node_y :: real
  node_label :: string

type_synonym edge = "int \<times> int \<times> int"

record dataset =
  nodes :: "node list"
  edges :: "edge list"

text \<open>
  The three exceptions the script can raise on a parsed document:
  \<^item> \<open>ValueError\<close>: numpy's "zero-size array to reduction operation ... which has no identity",
    raised by \<^verbatim>\<open>.min()\<close> and \<^verbatim>\<open>.max()\<close> of an empty array; the script has no message of
    its own, so the exception is the same whichever array is empty;
  \<^item> \<open>IndexError i n\<close>: numpy's "index i is out of bounds for axis 0 with size n";
  \<^item> \<open>OverflowError\<close>: "Python int too large to convert to C long", raised when an index
    does not fit the 64-bit signed integer that numpy converts it to; the message does
    not carry the index.
\<close>

datatype error = ValueError | IndexError int nat | OverflowError

definition bind_err :: "error + 'a \<Rightarrow> ('a \<Rightarrow> error + 'b) \<Rightarrow> error + 'b" where
  "bind_err m f = (case m of Inl e \<Rightarrow> Inl e | Inr v \<Rightarrow> f v)"

text \<open>
  Indexing a numpy array of size \<open>n\<close> with a Python integer: an index in \<open>[0, n)\<close> is taken as
  it is, an index in \<open>[-n, 0)\<close> counts from the end, anything else raises. The index is
  first converted to a 64-bit signed integer: outside \<open>[-2^63, 2^63)\<close> the conversion raises
  \<open>OverflowError\<close>, inside it the bounds check raises \<open>IndexError\<close>. An array has fewer than
  \<open>2^63\<close> elements, so an index in \<open>[-n, n)\<close> always converts.
\<close>

definition c_long :: "int \<Rightarrow> bool" where
  "c_long i = (- (2 ^ 63) \<le> i \<and> i < 2 ^ 63)"

definition np_index :: "nat \<Rightarrow> int \<Rightarrow> error + nat" where
  "np_index n i =
     (if 0 \<le> i \<and> i < int n then Inr (nat i)
      else if - int n \<le> i \<and> i < 0 then Inr (nat (i + int n))
      else if \<not> c_long i then Inl OverflowError
      else Inl (IndexError i n))"

definition np_get :: "'a list \<Rightarrow> int \<Rightarrow> error + 'a" where
  "np_get a i = bind_err (np_index (length a) i) (\<lambda>k. Inr (a ! k))"

section \<open>Reductions over arrays\<close>

definition np_min :: "real list \<Rightarrow> error + real" where
  "np_min a = (case a of [] \<Rightarrow> Inl ValueError | v # vs \<Rightarrow> Inr (fold min vs v))"

definition np_max :: "real list \<Rightarrow> error + real" where
  "np_max a = (case a of [] \<Rightarrow> Inl ValueError | v # vs \<Rightarrow> Inr (fold max vs v))"

definition np_max_int :: "int list \<Rightarrow> error + int" where
  "np_max_int a = (case a of [] \<Rightarrow> Inl ValueError | v # vs \<Rightarrow> Inr (fold max vs v))"

text \<open>
  \<^verbatim>\<open>.mean()\<close>, \<^verbatim>\<open>.std()\<close> and \<^verbatim>\<open>np.median\<close> do not raise on an empty array (they warn and
  give NaN). The script reaches each of them only after a \<^verbatim>\<open>.min()\<close> of the same array has
  succeeded, so they are modelled on non-empty arrays only.
\<close>

definition np_mean :: "real list \<Rightarrow> real" where
  "np_mean a = sum_list a / real (length a)"

definition np_std :: "real list \<Rightarrow> real" where
  "np_std a = sqrt (np_mean (map (\<lambda>v. \<bar>v - np_mean a\<bar> ^ 2) a))"

definition np_median :: "real list \<Rightarrow> real" where
  "np_median a =
     (let s = sort a; n = length a
      in if odd n then s ! (n div 2) else (s ! (n div 2 - 1) + s ! (n div 2)) / 2)"

section \<open>The printed report\<close>

text \<open>
  A number printed through a format specification \<^verbatim>\<open>:.kf\<close> is kept as the pair of the
  number of decimals and the value.
\<close>

datatype fnum = Fmt nat real

datatype line =
    LNodes nat
  | LEdges nat
  | LXRange fnum fnum
  | LYRange fnum fnum
  | LStd fnum fnum
  | LAnyNaN bool
  | LAnyInf bool
  | LMaxDegree int
  | LIsolated nat nat
  | LOverlaps nat
  | LPairwise fnum fnum fnum
  | LEdgeLens fnum fnum fnum fnum
  | LBlank
  | LSaved

section \<open>Degrees\<close>

text \<open>
  \<^verbatim>\<open>
  degrees = np.zeros(len(nodes), dtype=int)
  for src, tgt, ty in edges:
      degrees[src] += 1
      degrees[tgt] += 1
  \<close>
\<close>

definition incr :: "int list \<Rightarrow> int \<Rightarrow> error + int list" where
  "incr degs i = bind_err (np_index (length degs) i) (\<lambda>k. Inr (degs[k := degs ! k + 1]))"

fun degrees_loop :: "int list \<Rightarrow> edge list \<Rightarrow> error + int list" where
  "degrees_loop degs [] = Inr degs"
| "degrees_loop degs ((src, tgt, ty) # es) =
     bind_err (incr degs src) (\<lambda>degs1.
     bind_err (incr degs1 tgt) (\<lambda>degs2.
     degrees_loop degs2 es))"

definition compute_degrees :: "dataset \<Rightarrow> error + int list" where
  "compute_degrees ds = degrees_loop (replicate (length (nodes ds)) 0) (edges ds)"

section \<open>Overlapping nodes\<close>

text \<open>
  Python's \<^verbatim>\<open>round(v, 1)\<close> on a float rounds the exact value to one decimal, ties to the
  even digit.
\<close>

definition round_half_even :: "real \<Rightarrow> int" where
  "round_half_even r =
     (let f = \<lfloor>r\<rfloor>; d = r - of_int f
      in if d < 1 / 2 then f else if 1 / 2 < d then f + 1 else if even f then f else f + 1)"

definition py_round1 :: "real \<Rightarrow> real" where
  "py_round1 v = of_int (round_half_even (v * 10)) / 10"

text \<open>
  \<^verbatim>\<open>collections.Counter\<close> over a sequence of keys: a dictionary from key to number of
  occurrences, kept in insertion order.
\<close>

fun counter_add :: "'k \<Rightarrow> ('k \<times> nat) list \<Rightarrow> ('k \<times> nat) list" where
  "counter_add k [] = [(k, 1)]"
| "counter_add k ((k', c) # kvs) =
     (if k = k' then (k', c + 1) # kvs else (k', c) # counter_add k kvs)"

definition Counter :: "'k list \<Rightarrow> ('k \<times> nat) list" where
  "Counter ks = fold counter_add ks []"

definition rounded :: "real list \<Rightarrow> real list \<Rightarrow> ((real \<times> real) \<times> nat) list" where
  "rounded xs ys = Counter (map (\<lambda>(u, v). (py_round1 u, py_round1 v)) (zip xs ys))"

definition overlaps :: "real list \<Rightarrow> real list \<Rightarrow> nat" where
  "overlaps xs ys = length (filter (\<lambda>c. 1 < c) (map snd (rounded xs ys)))"

section \<open>Pairwise distances and edge lengths\<close>

text \<open>
  \<^verbatim>\<open>
  for i in range(min(500, len(nodes))):
      for j in range(i+1, min(500, len(nodes))):
          d = np.sqrt((xs[i]-xs[j])**2 + (ys[i]-ys[j])**2)
          dists.append(d)
  \<close>
\<close>

definition pair_indices :: "nat \<Rightarrow> (nat \<times> nat) list" where
  "pair_indices n = concat (map (\<lambda>i. map (\<lambda>j. (i, j)) [i + 1 ..< min 500 n]) [0 ..< min 500 n])"

definition pair_dist :: "real list \<Rightarrow> real list \<Rightarrow> nat \<Rightarrow> nat \<Rightarrow> real" where
  "pair_dist xs ys i j = sqrt ((xs ! i - xs ! j) ^ 2 + (ys ! i - ys ! j) ^ 2)"

definition dists :: "real list \<Rightarrow> real list \<Rightarrow> real list" where
  "dists xs ys = map (\<lambda>(i, j). pair_dist xs ys i j) (pair_indices (length xs))"

text \<open>The four coordinate reads of an edge, \<^verbatim>\<open>xs[src]\<close>, \<^verbatim>\<open>ys[src]\<close>, \<^verbatim>\<open>xs[tgt]\<close>, \<^verbatim>\<open>ys[tgt]\<close>.\<close>

definition segment :: "real list \<Rightarrow> real list \<Rightarrow> edge \<Rightarrow> error + ((real \<times> real) \<times> (real \<times> real))" where
  "segment xs ys e =
     (case e of (src, tgt, ty) \<Rightarrow>
        bind_err (np_get xs src) (\<lambda>x1.
        bind_err (np_get ys src) (\<lambda>y1.
        bind_err (np_get xs tgt) (\<lambda>x2.
        bind_err (np_get ys tgt) (\<lambda>y2.
        Inr ((x1, y1), (x2, y2)))))))"

fun map_err :: "('a \<Rightarrow> error + 'b) \<Rightarrow> 'a list \<Rightarrow> error + 'b list" where
  "map_err f [] = Inr []"
| "map_err f (a # as) = bind_err (f a) (\<lambda>b. bind_err (map_err f as) (\<lambda>bs. Inr (b # bs)))"

definition edge_len :: "real list \<Rightarrow> real list \<Rightarrow> edge \<Rightarrow> error + real" where
  "edge_len xs ys e =
     bind_err (segment xs ys e) (\<lambda>((x1, y1), (x2, y2)). Inr (sqrt ((x1 - x2) ^ 2 + (y1 - y2) ^ 2)))"

definition edge_lens :: "real list \<Rightarrow> real list \<Rightarrow> edge list \<Rightarrow> error + real list" where
  "edge_lens xs ys es = map_err (edge_len xs ys) es"

section \<open>The statistics report\<close>

text \<open>
  Each \<^verbatim>\<open>print\<close> evaluates its whole f-string first: a line whose computation raises is
  not printed, and the lines before it are already on the console. A piece of the
  script is therefore the list of lines it printed together with either the exception
  that stopped it or its result.
\<close>

type_synonym 'a console = "line list \<times> (error + 'a)"

definition compute :: "error + 'a \<Rightarrow> 'a console" where
  "compute m = ([], m)"

definition print_line :: "error + line \<Rightarrow> unit console" where
  "print_line m = (case m of Inl e \<Rightarrow> ([], Inl e) | Inr l \<Rightarrow> ([l], Inr ()))"

definition seq :: "'a console \<Rightarrow> ('a \<Rightarrow> 'b console) \<Rightarrow> 'b console" where
  "seq c f =
     (case snd c of
        Inl e \<Rightarrow> (fst c, Inl e)
      | Inr v \<Rightarrow> (fst c @ fst (f v), snd (f v)))"

definition x_range_line :: "real list \<Rightarrow> error + line" where
  "x_range_line xs =
     bind_err (np_min xs) (\<lambda>lo. bind_err (np_max xs) (\<lambda>hi. Inr (LXRange (Fmt 1 lo) (Fmt 1 hi))))"

definition y_range_line :: "real list \<Rightarrow> error + line" where
  "y_range_line ys =
     bind_err (np_min ys) (\<lambda>lo. bind_err (np_max ys) (\<lambda>hi. Inr (LYRange (Fmt 1 lo) (Fmt 1 hi))))"

text \<open>Lines 23 to 29 of the script: the sizes, the coordinate ranges, the NaN and Inf flags.\<close>

definition coordinate_report :: "dataset \<Rightarrow> unit console" where
  "coordinate_report ds =
     (let xs = map node_x (nodes ds); ys = map node_y (nodes ds) in
      seq (print_line (Inr (LNodes (length (nodes ds))))) (\<lambda>_.
      seq (print_line (Inr (LEdges (length (edges ds))))) (\<lambda>_.
      seq (print_line (x_range_line xs)) (\<lambda>_.
      seq (print_line (y_range_line ys)) (\<lambda>_.
      seq (print_line (Inr (LStd (Fmt 1 (np_std xs)) (Fmt 1 (np_std ys))))) (\<lambda>_.
      seq (print_line (Inr (LAnyNaN False))) (\<lambda>_.
      print_line (Inr (LAnyInf False)))))))))"

text \<open>Lines 31 to 42: the degrees, their maximum, the nodes of degree 0 and 1.\<close>

definition degree_report :: "dataset \<Rightarrow> (int list \<times> int) console" where
  "degree_report ds =
     seq (compute (compute_degrees ds)) (\<lambda>degrees.
     seq (compute (np_max_int degrees)) (\<lambda>max_degree.
     seq (print_line (Inr (LMaxDegree max_degree))) (\<lambda>_.
     seq (print_line (Inr (LIsolated (length (filter (\<lambda>d. d = 0) degrees))
                                     (length (filter (\<lambda>d. d = 1) degrees))))) (\<lambda>_.
     compute (Inr (degrees, max_degree))))))"

text \<open>Lines 44 to 48.\<close>

definition overlap_report :: "dataset \<Rightarrow> unit console" where
  "overlap_report ds =
     print_line (Inr (LOverlaps (overlaps (map node_x (nodes ds)) (map node_y (nodes ds)))))"

text \<open>Lines 50 to 59.\<close>

definition pairwise_line :: "real list \<Rightarrow> error + line" where
  "pairwise_line d =
     bind_err (np_min d) (\<lambda>lo. Inr (LPairwise (Fmt 2 lo) (Fmt 1 (np_median d)) (Fmt 1 (np_mean d))))"

definition pairwise_report :: "dataset \<Rightarrow> unit console" where
  "pairwise_report ds =
     print_line (pairwise_line (dists (map node_x (nodes ds)) (map node_y (nodes ds))))"

text \<open>Lines 61 to 67.\<close>

definition edge_lens_line :: "real list \<Rightarrow> error + line" where
  "edge_lens_line l =
     bind_err (np_min l) (\<lambda>lo. bind_err (np_max l) (\<lambda>hi.
       Inr (LEdgeLens (Fmt 1 lo) (Fmt 1 (np_median l)) (Fmt 1 (np_mean l)) (Fmt 1 hi))))"

definition edge_length_report :: "dataset \<Rightarrow> unit console" where
  "edge_length_report ds =
     seq (compute (edge_lens (map node_x (nodes ds)) (map node_y (nodes ds)) (edges ds))) (\<lambda>lens.
     print_line (edge_lens_line lens))"

definition stats :: "dataset \<Rightarrow> (int list \<times> int) console" where
  "stats ds =
     seq (coordinate_report ds) (\<lambda>_.
     seq (degree_report ds) (\<lambda>dm.
     seq (overlap_report ds) (\<lambda>_.
     seq (pairwise_report ds) (\<lambda>_.
     seq (edge_length_report ds) (\<lambda>_.
     compute (Inr dm))))))"

section \<open>The figure\<close>

type_synonym color = "real \<times> real \<times> real \<times> real"

type_synonym drawn = "((real \<times> real) \<times> (real \<times> real)) \<times> color"

text \<open>\<^verbatim>\<open>edge_colors_map.get(ty, (0.5, 0.5, 0.5, 0.1))\<close>\<close>

definition edge_color :: "int \<Rightarrow> color" where
  "edge_color ty =
     (if ty = 0 then (0.8, 0.2, 0.2, 0.12)
      else if ty = 1 then (0.2, 0.8, 0.2, 0.12)
      else if ty = 2 then (0.3, 0.3, 0.9, 0.12)
      else (0.5, 0.5, 0.5, 0.1))"

definition draw_edge :: "real list \<Rightarrow> real list \<Rightarrow> edge \<Rightarrow> error + drawn" where
  "draw_edge xs ys e = bind_err (segment xs ys e) (\<lambda>s. Inr (s, edge_color (snd (snd e))))"

text \<open>
  \<^verbatim>\<open>sizes = 2 + (degrees / max_degree) * 30\<close>: numpy's true division of an integer array by
  zero does not raise, it warns and gives NaN or infinity, written \<open>None\<close> here.
\<close>

definition np_divide :: "int \<Rightarrow> int \<Rightarrow> real option" where
  "np_divide a b = (if b = 0 then None else Some (real_of_int a / real_of_int b))"

definition sizes :: "int list \<Rightarrow> int \<Rightarrow> real option list" where
  "sizes degrees max_degree =
     map (\<lambda>d. map_option (\<lambda>q. 2 + q * 30) (np_divide d max_degree)) degrees"

text \<open>
  \<^verbatim>\<open>hues = np.array([hash(str(i)) % 360 for i in range(len(nodes))])\<close>. \<^verbatim>\<open>str(i)\<close> is the
  decimal numeral of \<open>i\<close>. Python's \<^verbatim>\<open>hash\<close> of a string is salted with a key that the
  interpreter draws at start-up (unless \<^verbatim>\<open>PYTHONHASHSEED\<close> fixes it), so the hash function
  of the running process is a parameter \<open>h\<close> of the model.
\<close>

function str :: "nat \<Rightarrow> string" where
  "str n = (if n < 10 then [char_of (48 + n)] else str (n div 10) @ [char_of (48 + n mod 10)])"
  by pat_completeness auto
termination
  by (relation "measure (\<lambda>n. n)") auto

declare str.simps [simp del]

definition hues :: "(string \<Rightarrow> int) \<Rightarrow> nat \<Rightarrow> int list" where
  "hues h n = map (\<lambda>i. h (str i) mod 360) [0 ..< n]"

text \<open>
  The middle panel. The test of the script is a chain of \<^verbatim>\<open>and\<close>, which stops at the
  first false conjunct and reads no further coordinate.
  \<^verbatim>\<open>
  if (abs(xs[src] - cx) < radius and abs(ys[src] - cy) < radius and
      abs(xs[tgt] - cx) < radius and abs(ys[tgt] - cy) < radius):
  \<close>
\<close>

definition and_then :: "error + bool \<Rightarrow> (error + bool) \<Rightarrow> error + bool" where
  "and_then a b = bind_err a (\<lambda>t. if t then b else Inr False)"

definition near :: "real list \<Rightarrow> int \<Rightarrow> real \<Rightarrow> real \<Rightarrow> error + bool" where
  "near a i c radius = bind_err (np_get a i) (\<lambda>v. Inr (\<bar>v - c\<bar> < radius))"

definition edge_in_view :: "real list \<Rightarrow> real list \<Rightarrow> real \<Rightarrow> real \<Rightarrow> real \<Rightarrow> edge \<Rightarrow> error + bool" where
  "edge_in_view xs ys cx cy radius e =
     (case e of (src, tgt, ty) \<Rightarrow>
        and_then (near xs src cx radius)
       (and_then (near ys src cy radius)
       (and_then (near xs tgt cx radius)
                 (near ys tgt cy radius))))"

fun lines2 :: "real list \<Rightarrow> real list \<Rightarrow> real \<Rightarrow> real \<Rightarrow> real \<Rightarrow> edge list \<Rightarrow> error + drawn list" where
  "lines2 xs ys cx cy radius [] = Inr []"
| "lines2 xs ys cx cy radius (e # es) =
     bind_err (edge_in_view xs ys cx cy radius e) (\<lambda>inside.
     bind_err (if inside then bind_err (draw_edge xs ys e) (\<lambda>d. Inr [d]) else Inr []) (\<lambda>d.
     bind_err (lines2 xs ys cx cy radius es) (\<lambda>r.
     Inr (d @ r))))"

definition mask_view :: "real list \<Rightarrow> real list \<Rightarrow> real \<Rightarrow> real \<Rightarrow> real \<Rightarrow> bool list" where
  "mask_view xs ys cx cy radius = map (\<lambda>(u, v). \<bar>u - cx\<bar> < radius \<and> \<bar>v - cy\<bar> < radius) (zip xs ys)"

text \<open>
  What the claims need of the saved figure: its size in pixels (\<^verbatim>\<open>figsize=(30, 10)\<close> inches
  at \<^verbatim>\<open>dpi=150\<close>), the edges, node sizes and hues of the left panel, and the limits, edges
  and node mask of the middle panel. The text labels and the right panel are left out.
\<close>

record image =
  width_px :: nat
  height_px :: nat
  panel1_lines :: "drawn list"
  panel1_sizes :: "real option list"
  panel1_hues :: "int list"
  panel2_xlim :: "real \<times> real"
  panel2_ylim :: "real \<times> real"
  panel2_lines :: "drawn list"
  panel2_mask :: "bool list"

definition render :: "(string \<Rightarrow> int) \<Rightarrow> dataset \<Rightarrow> int list \<Rightarrow> int \<Rightarrow> error + image" where
  "render h ds degrees max_degree =
     (let xs = map node_x (nodes ds); ys = map node_y (nodes ds);
          cx = np_mean xs; cy = np_mean ys;
          radius = 2 * max (np_std xs) (np_std ys)
      in bind_err (map_err (draw_edge xs ys) (edges ds)) (\<lambda>lines.
         bind_err (lines2 xs ys cx cy radius (edges ds)) (\<lambda>l2.
         Inr \<lparr> width_px = 30 * 150, height_px = 10 * 150,
               panel1_lines = lines,
               panel1_sizes = sizes degrees max_degree,
               panel1_hues = hues h (length (nodes ds)),
               panel2_xlim = (cx - radius, cx + radius),
               panel2_ylim = (cy - radius, cy + radius),
               panel2_lines = l2,
               panel2_mask = mask_view xs ys cx cy radius \<rparr>)))"

text \<open>
  The script up to and including \<^verbatim>\<open>plt.savefig\<close> (line 145): the statistics, then the
  figure, which is written to the file when this part returns it.
\<close>

definition until_savefig :: "(string \<Rightarrow> int) \<Rightarrow> dataset \<Rightarrow> image console" where
  "until_savefig h ds =
     seq (stats ds) (\<lambda>dm.
     compute (render h ds (fst dm) (snd dm)))"

text \<open>
  The last statement, \<^verbatim>\<open>print("\nSaved layout_visualization.png")\<close> (line 146), runs after
  the file has been written and puts two lines on the console, an empty one and the
  text.
\<close>

definition print_saved :: "unit console" where
  "print_saved = ([LBlank, LSaved], Inr ())"

text \<open>The whole script on a parsed document.\<close>

definition run :: "(string \<Rightarrow> int) \<Rightarrow> dataset \<Rightarrow> image console" where
  "run h ds =
     seq (until_savefig h ds) (\<lambda>img.
     seq print_saved (\<lambda>_.
     compute (Inr img)))"

section \<open>Notions used to state the properties\<close>

subsection \<open>Edges and their endpoints\<close>

text \<open>
  The degree of the specification: the number of edge endpoints (sources and targets,
  counted separately) that are the node \<open>v\<close>.
\<close>

definition endpoint_count :: "edge list \<Rightarrow> int \<Rightarrow> nat" where
  "endpoint_count es v =
     length (filter (\<lambda>e. fst e = v) es) + length (filter (\<lambda>e. fst (snd e) = v) es)"

text \<open>An edge of a graph with \<open>n\<close> nodes whose two endpoints are indices in \<open>[0, n)\<close>.\<close>

definition in_range :: "nat \<Rightarrow> edge \<Rightarrow> bool" where
  "in_range n e = (0 \<le> fst e \<and> fst e < int n \<and> 0 \<le> fst (snd e) \<and> fst (snd e) < int n)"

text \<open>
  The indices that numpy accepts for an array of size \<open>n\<close>, the exception it raises on any
  other index, the position an accepted index stands for, and the first endpoint of an
  edge list that numpy does not accept, reading the edges in order and the source of an
  edge before its target.
\<close>

definition np_valid :: "nat \<Rightarrow> int \<Rightarrow> bool" where
  "np_valid n i = (- int n \<le> i \<and> i < int n)"

definition index_error :: "nat \<Rightarrow> int \<Rightarrow> error" where
  "index_error n i = (if c_long i then IndexError i n else OverflowError)"

definition norm_index :: "nat \<Rightarrow> int \<Rightarrow> nat" where
  "norm_index n i = (if 0 \<le> i then nat i else nat (i + int n))"

fun first_bad :: "nat \<Rightarrow> edge list \<Rightarrow> int option" where
  "first_bad n [] = None"
| "first_bad n ((src, tgt, ty) # es) =
     (if \<not> np_valid n src then Some src
      else if \<not> np_valid n tgt then Some tgt
      else first_bad n es)"

text \<open>
  The position of an endpoint, the segment and the drawn line of an edge, and its length.
\<close>

definition endpoint_xy :: "dataset \<Rightarrow> int \<Rightarrow> real \<times> real" where
  "endpoint_xy ds i =
     (node_x (nodes ds ! norm_index (length (nodes ds)) i),
      node_y (nodes ds ! norm_index (length (nodes ds)) i))"

definition segment_of :: "dataset \<Rightarrow> edge \<Rightarrow> (real \<times> real) \<times> (real \<times> real)" where
  "segment_of ds e = (endpoint_xy ds (fst e), endpoint_xy ds (fst (snd e)))"

definition drawn_of :: "dataset \<Rightarrow> edge \<Rightarrow> drawn" where
  "drawn_of ds e = (segment_of ds e, edge_color (snd (snd e)))"

definition length_of :: "dataset \<Rightarrow> edge \<Rightarrow> real" where
  "length_of ds e =
     sqrt ((fst (endpoint_xy ds (fst e)) - fst (endpoint_xy ds (fst (snd e)))) ^ 2
         + (snd (endpoint_xy ds (fst e)) - snd (endpoint_xy ds (fst (snd e)))) ^ 2)"

text \<open>The degree array of a document whose edge indices numpy accepts.\<close>

definition degrees_of :: "dataset \<Rightarrow> int list" where
  "degrees_of ds = (case compute_degrees ds of Inl e \<Rightarrow> [] | Inr degrees \<Rightarrow> degrees)"

subsection \<open>Rounded positions and distances\<close>

text \<open>
  The position of a node rounded to one decimal, and the number of nodes of a sequence
  that lie at a rounded position.
\<close>

definition rounded_xy :: "node \<Rightarrow> real \<times> real" where
  "rounded_xy n = (py_round1 (node_x n), py_round1 (node_y n))"

definition occupants :: "node list \<Rightarrow> real \<times> real \<Rightarrow> nat" where
  "occupants ns p = length (filter (\<lambda>n. rounded_xy n = p) ns)"


definition sample :: "dataset \<Rightarrow> real list" where
  "sample ds = dists (map node_x (nodes ds)) (map node_y (nodes ds))"

subsection \<open>The window of the middle panel\<close>

definition center :: "dataset \<Rightarrow> real \<times> real" where
  "center ds = (np_mean (map node_x (nodes ds)), np_mean (map node_y (nodes ds)))"

definition radius_of :: "dataset \<Rightarrow> real" where
  "radius_of ds = 2 * max (np_std (map node_x (nodes ds))) (np_std (map node_y (nodes ds)))"

definition in_window :: "dataset \<Rightarrow> real \<times> real \<Rightarrow> bool" where
  "in_window ds p =
     (fst (center ds) - radius_of ds < fst p \<and> fst p < fst (center ds) + radius_of ds \<and>
      snd (center ds) - radius_of ds < snd p \<and> snd p < snd (center ds) + radius_of ds)"

definition edge_in_window :: "dataset \<Rightarrow> edge \<Rightarrow> bool" where
  "edge_in_window ds e =
     (in_window ds (endpoint_xy ds (fst e)) \<and> in_window ds (endpoint_xy ds (fst (snd e))))"

subsection \<open>The lines of the report and the figure\<close>

text \<open>
  The lines that a complete run prints, in order: seven lines on sizes and coordinates,
  two on degrees, one on overlaps, one on pairwise distances and one on edge lengths,
  which are the twelve lines of the statistics; then, after the figure has been saved,
  an empty line and the line that says so.
\<close>

definition coordinate_lines :: "dataset \<Rightarrow> line list" where
  "coordinate_lines ds =
     (let xs = map node_x (nodes ds); ys = map node_y (nodes ds) in
      [LNodes (length (nodes ds)), LEdges (length (edges ds)),
       LXRange (Fmt 1 (Min (set xs))) (Fmt 1 (Max (set xs))),
       LYRange (Fmt 1 (Min (set ys))) (Fmt 1 (Max (set ys))),
       LStd (Fmt 1 (np_std xs)) (Fmt 1 (np_std ys)),
       LAnyNaN False, LAnyInf False])"

definition degree_lines :: "int list \<Rightarrow> line list" where
  "degree_lines degrees =
     [LMaxDegree (Max (set degrees)),
      LIsolated (length (filter (\<lambda>d. d = 0) degrees)) (length (filter (\<lambda>d. d = 1) degrees))]"

definition overlap_line :: "dataset \<Rightarrow> line" where
  "overlap_line ds = LOverlaps (overlaps (map node_x (nodes ds)) (map node_y (nodes ds)))"

definition pairwise_line_of :: "dataset \<Rightarrow> line" where
  "pairwise_line_of ds =
     LPairwise (Fmt 2 (Min (set (sample ds)))) (Fmt 1 (np_median (sample ds))) (Fmt 1 (np_mean (sample ds)))"

definition edge_line_of :: "dataset \<Rightarrow> line" where
  "edge_line_of ds =
     (let l = map (length_of ds) (edges ds)
      in LEdgeLens (Fmt 1 (Min (set l))) (Fmt 1 (np_median l)) (Fmt 1 (np_mean l)) (Fmt 1 (Max (set l))))"

definition report_to_overlaps :: "dataset \<Rightarrow> line list" where
  "report_to_overlaps ds = coordinate_lines ds @ degree_lines (degrees_of ds) @ [overlap_line ds]"

definition stats_report :: "dataset \<Rightarrow> line list" where
  "stats_report ds = report_to_overlaps ds @ [pairwise_line_of ds, edge_line_of ds]"

definition full_report :: "dataset \<Rightarrow> line list" where
  "full_report ds = stats_report ds @ [LBlank, LSaved]"

text \<open>The figure that a complete run saves.\<close>

definition figure :: "(string \<Rightarrow> int) \<Rightarrow> dataset \<Rightarrow> image" where
  "figure h ds =
     \<lparr> width_px = 4500, height_px = 1500,
       panel1_lines = map (drawn_of ds) (edges ds),
       panel1_sizes = sizes (degrees_of ds) (Max (set (degrees_of ds))),
       panel1_hues = hues h (length (nodes ds)),
       panel2_xlim = (fst (center ds) - radius_of ds, fst (center ds) + radius_of ds),
       panel2_ylim = (snd (center ds) - radius_of ds, snd (center ds) + radius_of ds),
       panel2_lines = map (drawn_of ds) (filter (edge_in_window ds) (edges ds)),
       panel2_mask = map (\<lambda>n. in_window ds (node_x n, node_y n)) (nodes ds) \<rparr>"

section \<open>Example data\<close>

text \<open>The three nodes of the specification's example, at \<open>(0, 0)\<close>, \<open>(0, 0.04)\<close> and \<open>(10, 10)\<close>.\<close>

definition n0 :: node where "n0 = \<lparr>node_x = 0, node_y = 0, node_label = ''a''\<rparr>"

definition n1 :: node where "n1 = \<lparr>node_x = 0, node_y = 0.04, node_label = ''b''\<rparr>"

definition n2 :: node where "n2 = \<lparr>node_x = 10, node_y = 10, node_label = ''c''\<rparr>"

text \<open>
  Documents: without nodes; with one node; with an edge that refers to index \<open>N\<close>; with an
  edge that refers to index \<open>2^63\<close>; with an edge that refers to index \<open>-1\<close>; without edges;
  and the example of the specification.
\<close>

definition ds_empty :: dataset where
  "ds_empty = \<lparr>nodes = [], edges = [(0, 1, 0)]\<rparr>"

definition ds_single :: dataset where
  "ds_single = \<lparr>nodes = [n0], edges = [(0, 0, 0)]\<rparr>"



definition ds_wrap :: dataset where
  "ds_wrap = \<lparr>nodes = [n0, n2], edges = [(0, -1, 0)]\<rparr>"

definition ds_no_edges :: dataset where
  "ds_no_edges = \<lparr>nodes = [n0, n2], edges = []\<rparr>"

definition ds_spec :: dataset where
  "ds_spec = \<lparr>nodes = [n0, n1, n2], edges = [(0, 1, 0)]\<rparr>"

text \<open>Two string hash functions, standing for two interpreter processes.\<close>

definition length_hash :: "string \<Rightarrow> int" where
  "length_hash s = int (length s)"

definition zero_hash :: "string \<Rightarrow> int" where
  "zero_hash s = 0"

section \<open>Basic facts\<close>

lemma bind_err_simps [simp]:
  "bind_err (Inl e) f = Inl e" "bind_err (Inr v) f = f v"
  by (simp_all add: bind_err_def)

lemma np_index_nonneg: "0 \<le> i \<Longrightarrow> i < int n \<Longrightarrow> np_index n i = Inr (nat i)"
  by (simp add: np_index_def)

lemma incr_nonneg:
  "0 \<le> i \<Longrightarrow> i < int (length degs) \<Longrightarrow> incr degs i = Inr (degs[nat i := degs ! nat i + 1])"
  by (simp add: incr_def np_index_nonneg)

section \<open>Degrees count edge endpoints\<close>

lemma endpoint_count_Cons:
  "int (endpoint_count ((s, t, ty) # es) v) =
     (if s = v then 1 else 0) + (if t = v then 1 else 0) + int (endpoint_count es v)"
  by (simp add: endpoint_count_def)

lemma degrees_loop_counts:
  "length degs = n \<Longrightarrow> \<forall>e \<in> set es. in_range n e \<Longrightarrow>
   degrees_loop degs es = Inr (map (\<lambda>k. degs ! k + int (endpoint_count es (int k))) [0 ..< n])"
proof (induction es arbitrary: degs)
  case Nil
  then show ?case using map_nth [of degs] by (simp add: endpoint_count_def)
next
  case (Cons e es)
  obtain s t ty where e: "e = (s, t, ty)" by (cases e) auto
  from Cons.prems e have s: "0 \<le> s" "s < int n" and t: "0 \<le> t" "t < int n"
    by (simp_all add: in_range_def)
  let ?d1 = "degs[nat s := degs ! nat s + 1]"
  let ?d2 = "?d1[nat t := ?d1 ! nat t + 1]"
  have len: "length ?d2 = n" using Cons.prems by simp
  have rest: "\<forall>e \<in> set es. in_range n e" using Cons.prems by simp
  have step: "degrees_loop degs (e # es) = degrees_loop ?d2 es"
    using s t Cons.prems(1) by (simp add: e incr_nonneg)
  have "map (\<lambda>k. ?d2 ! k + int (endpoint_count es (int k))) [0 ..< n]
      = map (\<lambda>k. degs ! k + int (endpoint_count (e # es) (int k))) [0 ..< n]"
  proof (rule map_cong [OF refl])
    fix k assume "k \<in> set [0 ..< n]"
    then have k: "k < n" by simp
    have a: "(nat s = k) = (s = int k)" using s by auto
    have b: "(nat t = k) = (t = int k)" using t by auto
    show "?d2 ! k + int (endpoint_count es (int k)) = degs ! k + int (endpoint_count (e # es) (int k))"
      using k Cons.prems(1) s t
      by (auto simp add: e endpoint_count_Cons nth_list_update)
  qed
  with Cons.IH [OF len rest] step show ?case by simp
qed

lemma sum_endpoint_count:
  "\<forall>e \<in> set es. in_range n e \<Longrightarrow>
   (\<Sum>k \<leftarrow> [0 ..< n]. int (endpoint_count es (int k))) = 2 * int (length es)"
proof (induction es)
  case Nil
  then show ?case by (simp add: endpoint_count_def)
next
  case (Cons e es)
  obtain s t ty where e: "e = (s, t, ty)" by (cases e) auto
  from Cons.prems e have s: "0 \<le> s" "s < int n" and t: "0 \<le> t" "t < int n"
    by (simp_all add: in_range_def)
  have one: "(\<Sum>k \<leftarrow> [0 ..< n]. (if v = int k then 1 else 0 :: int)) = 1" if "0 \<le> v" "v < int n" for v
  proof -
    have "(\<Sum>k \<leftarrow> [0 ..< n]. (if v = int k then 1 else 0 :: int))
        = (\<Sum>k \<in> {0 ..< n}. (if v = int k then 1 else 0))"
      by (simp add: interv_sum_list_conv_sum_set_nat)
    also have "\<dots> = (\<Sum>k \<in> {0 ..< n}. (if k = nat v then 1 else 0))"
      using that by (intro sum.cong) auto
    also have "\<dots> = 1" using that by simp
    finally show ?thesis .
  qed
  have "(\<Sum>k \<leftarrow> [0 ..< n]. int (endpoint_count (e # es) (int k)))
      = (\<Sum>k \<leftarrow> [0 ..< n]. (if s = int k then 1 else 0)) + (\<Sum>k \<leftarrow> [0 ..< n]. (if t = int k then 1 else 0))
        + (\<Sum>k \<leftarrow> [0 ..< n]. int (endpoint_count es (int k)))"
    by (simp add: e endpoint_count_Cons sum_list_addf)
  with one [OF s] one [OF t] Cons show ?case by simp
qed

text \<open>
  Claim C5. When every edge endpoint is an index in \<open>[0, N)\<close>, the degree loop succeeds,
  the degree of each node is the number of edge endpoints that are this node (an edge
  from a node to itself counts twice for it), and the degrees add up to twice the
  number of edges.
\<close>

theorem degrees_count_endpoints:
  assumes "\<forall>e \<in> set (edges ds). in_range (length (nodes ds)) e"
  shows "\<exists>degrees. compute_degrees ds = Inr degrees
           \<and> length degrees = length (nodes ds)
           \<and> (\<forall>k < length (nodes ds). degrees ! k = int (endpoint_count (edges ds) (int k)))
           \<and> sum_list degrees = 2 * int (length (edges ds))"
proof -
  let ?n = "length (nodes ds)"
  let ?r = "map (\<lambda>k. int (endpoint_count (edges ds) (int k))) [0 ..< ?n]"
  have "compute_degrees ds = Inr ?r"
    using degrees_loop_counts [of "replicate ?n 0" ?n "edges ds"] assms
    by (simp add: compute_degrees_def cong: map_cong)
  moreover have "sum_list ?r = 2 * int (length (edges ds))"
    using sum_endpoint_count [OF assms] by simp
  ultimately show ?thesis by simp
qed

theorem degrees_count_endpoints_witness:
  "in_range 3 (0, 0, 1) \<and> in_range 3 (0, 1, 0)
   \<and> compute_degrees \<lparr>nodes = [n0, n1, n2], edges = [(0, 0, 1), (0, 1, 0)]\<rparr> = Inr [3, 1, 0]
   \<and> endpoint_count [(0, 0, 1), (0, 1, 0)] 0 = 3
   \<and> sum_list [3, 1, 0 :: int] = 2 * int (length [(0, 0, 1), (0, 1, 0 :: int) :: edge])"
proof -
  let ?ds = "\<lparr>nodes = [n0, n1, n2], edges = [(0, 0, 1), (0, 1, 0)]\<rparr>"
  have h: "\<forall>e \<in> set (edges ?ds). in_range (length (nodes ?ds)) e"
    by (simp add: in_range_def)
  from degrees_count_endpoints [OF h] obtain degrees where
    d: "compute_degrees ?ds = Inr degrees"
       "degrees ! 0 = int (endpoint_count (edges ?ds) (int 0))"
       "degrees ! 1 = int (endpoint_count (edges ?ds) (int 1))"
       "degrees ! 2 = int (endpoint_count (edges ?ds) (int 2))"
       "length degrees = 3"
       "sum_list degrees = 2 * int (length (edges ?ds))"
    by auto
  from d(2-5) have "degrees = [3, 1, 0]"
    by (cases degrees; cases "tl degrees"; cases "tl (tl degrees)") (auto simp: endpoint_count_def)
  with d(1) show ?thesis by (simp add: endpoint_count_def in_range_def)
qed

section \<open>The console and the reductions\<close>

lemma seq_simps [simp]:
  "seq (out, Inl e) f = (out, Inl e)"
  "seq (out, Inr v) f = (out @ fst (f v), snd (f v))"
  by (simp_all add: seq_def)

lemma print_line_simps [simp]:
  "print_line (Inl e) = ([], Inl e)"
  "print_line (Inr l) = ([l], Inr ())"
  by (simp_all add: print_line_def)

lemma np_min_eq: "a \<noteq> [] \<Longrightarrow> np_min a = Inr (Min (set a))"
proof (cases a)
  case (Cons v vs)
  then show ?thesis using Min.set_eq_fold [of v vs] by (simp add: np_min_def)
qed simp

lemma np_max_eq: "a \<noteq> [] \<Longrightarrow> np_max a = Inr (Max (set a))"
proof (cases a)
  case (Cons v vs)
  then show ?thesis using Max.set_eq_fold [of v vs] by (simp add: np_max_def)
qed simp

lemma np_max_int_eq: "a \<noteq> [] \<Longrightarrow> np_max_int a = Inr (Max (set a))"
proof (cases a)
  case (Cons v vs)
  then show ?thesis using Max.set_eq_fold [of v vs] by (simp add: np_max_int_def)
qed simp

lemma np_min_Nil: "np_min [] = Inl ValueError"
  by (simp add: np_min_def)

lemma coordinate_report_empty:
  "nodes ds = [] \<Longrightarrow> coordinate_report ds = ([LNodes 0, LEdges (length (edges ds))], Inl ValueError)"
  by (simp add: coordinate_report_def x_range_line_def np_min_Nil)

lemma coordinate_report_nonempty:
  "nodes ds \<noteq> [] \<Longrightarrow> coordinate_report ds = (coordinate_lines ds, Inr ())"
  by (simp add: coordinate_report_def coordinate_lines_def x_range_line_def y_range_line_def
      np_min_eq np_max_eq Let_def)

section \<open>The degree loop on arbitrary indices\<close>

lemma np_index_valid:
  "np_valid n i \<Longrightarrow> \<exists>k < n. np_index n i = Inr k"
  by (auto simp: np_valid_def np_index_def)

lemma np_index_invalid:
  "\<not> np_valid n i \<Longrightarrow> np_index n i = Inl (index_error n i)"
  by (auto simp: np_valid_def np_index_def index_error_def)

lemma incr_valid:
  "np_valid (length degs) i \<Longrightarrow> \<exists>k < length degs. incr degs i = Inr (degs[k := degs ! k + 1])"
  using np_index_valid [of "length degs" i] by (auto simp: incr_def)

lemma incr_invalid:
  "\<not> np_valid (length degs) i \<Longrightarrow> incr degs i = Inl (index_error (length degs) i)"
  by (simp add: incr_def np_index_invalid)

lemma degrees_loop_bad:
  "first_bad n es = Some i \<Longrightarrow> length degs = n \<Longrightarrow> degrees_loop degs es = Inl (index_error n i)"
proof (induction es arbitrary: degs)
  case Nil
  then show ?case by simp
next
  case (Cons e es)
  obtain s t ty where e: "e = (s, t, ty)" by (cases e) auto
  show ?case
  proof (cases "np_valid n s")
    case False
    with Cons.prems show ?thesis by (simp add: e incr_invalid)
  next
    case True
    then obtain k where k: "k < length degs" "incr degs s = Inr (degs[k := degs ! k + 1])"
      using incr_valid [of degs s] Cons.prems(2) by auto
    let ?d1 = "degs[k := degs ! k + 1]"
    show ?thesis
    proof (cases "np_valid n t")
      case False
      with True Cons.prems k show ?thesis by (simp add: e incr_invalid)
    next
      case t: True
      then obtain j where j: "j < length ?d1" "incr ?d1 t = Inr (?d1[j := ?d1 ! j + 1])"
        using incr_valid [of ?d1 t] Cons.prems(2) by auto
      from True t Cons.prems have "first_bad n es = Some i" by (simp add: e)
      from Cons.IH [OF this, of "?d1[j := ?d1 ! j + 1]"] Cons.prems(2) k j
      show ?thesis by (simp add: e)
    qed
  qed
qed

lemma sum_list_incr:
  "k < length degs \<Longrightarrow> sum_list (degs[k := degs ! k + 1]) = sum_list degs + (1 :: int)"
proof (induction degs arbitrary: k)
  case Nil
  then show ?case by simp
next
  case (Cons d degs)
  then show ?case by (cases k) simp_all
qed

lemma degrees_loop_good:
  "first_bad n es = None \<Longrightarrow> length degs = n \<Longrightarrow>
   \<exists>degs'. degrees_loop degs es = Inr degs' \<and> length degs' = n
      \<and> sum_list degs' = sum_list degs + 2 * int (length es)
      \<and> (\<forall>k < n. degs ! k \<le> degs' ! k)"
proof (induction es arbitrary: degs)
  case Nil
  then show ?case by simp
next
  case (Cons e es)
  obtain s t ty where e: "e = (s, t, ty)" by (cases e) auto
  from Cons.prems have v: "np_valid n s" "np_valid n t" and rest: "first_bad n es = None"
    by (auto simp: e split: if_splits)
  obtain k where k: "k < length degs" "incr degs s = Inr (degs[k := degs ! k + 1])"
    using incr_valid [of degs s] v Cons.prems(2) by auto
  let ?d1 = "degs[k := degs ! k + 1]"
  obtain j where j: "j < length ?d1" "incr ?d1 t = Inr (?d1[j := ?d1 ! j + 1])"
    using incr_valid [of ?d1 t] v Cons.prems(2) by auto
  let ?d2 = "?d1[j := ?d1 ! j + 1]"
  have len: "length ?d2 = n" using Cons.prems(2) by simp
  from Cons.IH [OF rest len] obtain degs' where
    d: "degrees_loop ?d2 es = Inr degs'" "length degs' = n"
       "sum_list degs' = sum_list ?d2 + 2 * int (length es)"
       "\<forall>k < n. ?d2 ! k \<le> degs' ! k"
    by blast
  have s1: "sum_list ?d1 = sum_list degs + 1" using k(1) by (rule sum_list_incr)
  have s2: "sum_list ?d2 = sum_list ?d1 + 1" using j(1) by (rule sum_list_incr)
  have mono: "degs ! m \<le> ?d2 ! m" if "m < n" for m
    using that Cons.prems(2) k(1) by (auto simp add: nth_list_update)
  have "degrees_loop degs (e # es) = Inr degs'" using k j d(1) by (simp add: e)
  moreover have "sum_list degs' = sum_list degs + 2 * int (length (e # es))"
    using d(3) s1 s2 by simp
  moreover have "\<forall>m < n. degs ! m \<le> degs' ! m"
    using mono d(4) by (meson order_trans)
  ultimately show ?case using d(2) by blast
qed

lemma compute_degrees_bad:
  "first_bad (length (nodes ds)) (edges ds) = Some i \<Longrightarrow>
   compute_degrees ds = Inl (index_error (length (nodes ds)) i)"
  by (simp add: compute_degrees_def degrees_loop_bad)

lemma compute_degrees_good:
  assumes "first_bad (length (nodes ds)) (edges ds) = None"
  shows "\<exists>degrees. compute_degrees ds = Inr degrees \<and> length degrees = length (nodes ds)
      \<and> sum_list degrees = 2 * int (length (edges ds))
      \<and> (\<forall>d \<in> set degrees. 0 \<le> d)"
proof -
  let ?n = "length (nodes ds)"
  from degrees_loop_good [OF assms, of "replicate ?n 0"] obtain degrees where
    d: "compute_degrees ds = Inr degrees" "length degrees = ?n"
       "sum_list degrees = 2 * int (length (edges ds))"
       "\<forall>k < ?n. 0 \<le> degrees ! k"
    by (auto simp: compute_degrees_def sum_list_replicate)
  from d(2,4) have "\<forall>d \<in> set degrees. 0 \<le> d" by (auto simp: in_set_conv_nth)
  with d show ?thesis by blast
qed

lemma max_degree_positive:
  assumes "sum_list (degrees :: int list) = 2 * int m" "0 < m"
  shows "1 \<le> Max (set degrees)"
proof -
  have "\<exists>d \<in> set degrees. 0 < d"
  proof (rule ccontr)
    assume "\<not> (\<exists>d \<in> set degrees. 0 < d)"
    then have "sum_list degrees \<le> 0" by (intro sum_list_nonpos) (auto simp: not_less)
    with assms show False by simp
  qed
  then obtain d where "d \<in> set degrees" "0 < d" by blast
  then have "d \<le> Max (set degrees)" by simp
  with \<open>0 < d\<close> show ?thesis by simp
qed

lemma degree_report_bad:
  "first_bad (length (nodes ds)) (edges ds) = Some i \<Longrightarrow>
   degree_report ds = ([], Inl (index_error (length (nodes ds)) i))"
  by (simp add: degree_report_def compute_def compute_degrees_bad)

lemma degree_report_good:
  "compute_degrees ds = Inr degrees \<Longrightarrow> degrees \<noteq> [] \<Longrightarrow>
   degree_report ds = (degree_lines degrees, Inr (degrees, Max (set degrees)))"
  by (simp add: degree_report_def compute_def np_max_int_eq degree_lines_def)

section \<open>Reading the endpoints of accepted edges\<close>

lemma np_index_norm:
  "np_valid n i \<Longrightarrow> np_index n i = Inr (norm_index n i)"
  by (auto simp: np_valid_def np_index_def norm_index_def)

lemma norm_index_less: "np_valid n i \<Longrightarrow> norm_index n i < n"
  by (auto simp: np_valid_def norm_index_def)

lemma first_bad_None_iff:
  "first_bad n es = None \<longleftrightarrow> (\<forall>e \<in> set es. np_valid n (fst e) \<and> np_valid n (fst (snd e)))"
  by (induction n es rule: first_bad.induct) auto

lemma map_err_all:
  "(\<And>a. a \<in> set as \<Longrightarrow> f a = Inr (g a)) \<Longrightarrow> map_err f as = Inr (map g as)"
  by (induction as) simp_all

lemma segment_valid:
  assumes "np_valid (length (nodes ds)) (fst e)" "np_valid (length (nodes ds)) (fst (snd e))"
  shows "segment (map node_x (nodes ds)) (map node_y (nodes ds)) e = Inr (segment_of ds e)"
proof -
  obtain s t ty where e: "e = (s, t, ty)" by (cases e) auto
  from assms show ?thesis
    by (simp add: e segment_def np_get_def np_index_norm norm_index_less segment_of_def endpoint_xy_def)
qed

lemma edge_lens_valid:
  assumes "first_bad (length (nodes ds)) (edges ds) = None"
  shows "edge_lens (map node_x (nodes ds)) (map node_y (nodes ds)) (edges ds)
           = Inr (map (length_of ds) (edges ds))"
  unfolding edge_lens_def
proof (rule map_err_all)
  fix e assume "e \<in> set (edges ds)"
  with assms have "np_valid (length (nodes ds)) (fst e)" "np_valid (length (nodes ds)) (fst (snd e))"
    by (auto simp: first_bad_None_iff)
  then show "edge_len (map node_x (nodes ds)) (map node_y (nodes ds)) e = Inr (length_of ds e)"
    by (simp add: edge_len_def segment_valid segment_of_def length_of_def case_prod_beta)
qed

lemma draw_edges_valid:
  assumes "first_bad (length (nodes ds)) (edges ds) = None"
  shows "map_err (draw_edge (map node_x (nodes ds)) (map node_y (nodes ds))) (edges ds)
           = Inr (map (drawn_of ds) (edges ds))"
proof (rule map_err_all)
  fix e assume "e \<in> set (edges ds)"
  with assms have "np_valid (length (nodes ds)) (fst e)" "np_valid (length (nodes ds)) (fst (snd e))"
    by (auto simp: first_bad_None_iff)
  then show "draw_edge (map node_x (nodes ds)) (map node_y (nodes ds)) e = Inr (drawn_of ds e)"
    by (simp add: draw_edge_def segment_valid drawn_of_def)
qed

section \<open>The pairs of the distance sample\<close>

lemma set_pair_indices:
  "set (pair_indices n) = {(i, j). i < j \<and> j < min 500 n}"
proof -
  have "(i, j) \<in> set (pair_indices n) \<longleftrightarrow> i < j \<and> j < min 500 n" for i j
    by (force simp: pair_indices_def)
  then show ?thesis by auto
qed



lemma pair_indices_Nil_iff: "pair_indices n = [] \<longleftrightarrow> n < 2"
proof
  assume "pair_indices n = []"
  then have "(0, 1) \<notin> set (pair_indices n)" by simp
  then show "n < 2" by (simp add: set_pair_indices)
next
  assume "n < 2"
  then have "set (pair_indices n) = {}" by (auto simp: set_pair_indices)
  then show "pair_indices n = []" by simp
qed

lemma dists_Nil_iff: "dists xs ys = [] \<longleftrightarrow> length xs < 2"
  by (simp add: dists_def pair_indices_Nil_iff)

lemma pairwise_report_few:
  "length (nodes ds) < 2 \<Longrightarrow> pairwise_report ds = ([], Inl ValueError)"
  using dists_Nil_iff [of "map node_x (nodes ds)" "map node_y (nodes ds)"]
  by (simp add: pairwise_report_def pairwise_line_def np_min_Nil)

lemma pairwise_report_many:
  "2 \<le> length (nodes ds) \<Longrightarrow>
   pairwise_report ds = 
     ([LPairwise (Fmt 2 (Min (set (dists (map node_x (nodes ds)) (map node_y (nodes ds))))))
                 (Fmt 1 (np_median (dists (map node_x (nodes ds)) (map node_y (nodes ds)))))
                 (Fmt 1 (np_mean (dists (map node_x (nodes ds)) (map node_y (nodes ds)))))], Inr ())"
  using dists_Nil_iff [of "map node_x (nodes ds)" "map node_y (nodes ds)"]
  by (simp add: pairwise_report_def pairwise_line_def np_min_eq)

section \<open>The edge length line\<close>

lemma edge_length_report_none:
  "edges ds = [] \<Longrightarrow> edge_length_report ds = ([], Inl ValueError)"
  by (simp add: edge_length_report_def compute_def edge_lens_def edge_lens_line_def np_min_Nil)

lemma edge_length_report_some:
  assumes "first_bad (length (nodes ds)) (edges ds) = None" "edges ds \<noteq> []"
  shows "edge_length_report ds =
     ([LEdgeLens (Fmt 1 (Min (set (map (length_of ds) (edges ds)))))
                 (Fmt 1 (np_median (map (length_of ds) (edges ds))))
                 (Fmt 1 (np_mean (map (length_of ds) (edges ds))))
                 (Fmt 1 (Max (set (map (length_of ds) (edges ds)))))], Inr ())"
  using assms
  by (simp add: edge_length_report_def compute_def edge_lens_valid edge_lens_line_def np_min_eq np_max_eq)

section \<open>Drawing the middle panel\<close>

lemma abs_window: "\<bar>v - c\<bar> < r \<longleftrightarrow> c - r < v \<and> v < c + (r :: real)"
  by auto

lemma near_valid:
  "np_valid (length a) i \<Longrightarrow> near a i c r = Inr (c - r < a ! norm_index (length a) i \<and> a ! norm_index (length a) i < c + r)"
  by (simp add: near_def np_get_def np_index_norm abs_window)

lemma edge_in_view_valid:
  assumes "np_valid (length (nodes ds)) (fst e)" "np_valid (length (nodes ds)) (fst (snd e))"
  shows "edge_in_view (map node_x (nodes ds)) (map node_y (nodes ds))
           (fst (center ds)) (snd (center ds)) (radius_of ds) e = Inr (edge_in_window ds e)"
proof -
  obtain s t ty where e: "e = (s, t, ty)" by (cases e) auto
  from assms show ?thesis
    by (auto simp add: e edge_in_view_def and_then_def near_valid norm_index_less
        edge_in_window_def in_window_def endpoint_xy_def)
qed

lemma lines2_valid:
  assumes "\<forall>e \<in> set es. np_valid (length (nodes ds)) (fst e) \<and> np_valid (length (nodes ds)) (fst (snd e))"
  shows "lines2 (map node_x (nodes ds)) (map node_y (nodes ds))
           (fst (center ds)) (snd (center ds)) (radius_of ds) es
         = Inr (map (drawn_of ds) (filter (edge_in_window ds) es))"
  using assms
proof (induction es)
  case Nil
  then show ?case by simp
next
  case (Cons e es)
  then show ?case
    by (simp add: edge_in_view_valid draw_edge_def segment_valid drawn_of_def)
qed

lemma mask_view_window:
  "mask_view (map node_x (nodes ds)) (map node_y (nodes ds)) (fst (center ds)) (snd (center ds)) (radius_of ds)
     = map (\<lambda>n. in_window ds (node_x n, node_y n)) (nodes ds)"
  by (simp add: mask_view_def zip_map_map in_window_def abs_window zip_same_conv_map)

lemma render_valid:
  assumes "first_bad (length (nodes ds)) (edges ds) = None"
  shows "render h ds (degrees_of ds) (Max (set (degrees_of ds))) = Inr (figure h ds)"
proof -
  have "lines2 (map node_x (nodes ds)) (map node_y (nodes ds))
           (fst (center ds)) (snd (center ds)) (radius_of ds) (edges ds)
         = Inr (map (drawn_of ds) (filter (edge_in_window ds) (edges ds)))"
    using assms by (intro lines2_valid) (simp add: first_bad_None_iff)
  moreover note mask_view_window [of ds] draw_edges_valid [OF assms]
  ultimately show ?thesis
    by (simp add: render_def Let_def figure_def center_def radius_of_def)
qed

section \<open>The five ways a run ends\<close>

lemma compute_simp [simp]: "compute m = ([], m)"
  by (simp add: compute_def)

lemma degrees_of_good:
  assumes "first_bad (length (nodes ds)) (edges ds) = None"
  shows "compute_degrees ds = Inr (degrees_of ds)"
    and "length (degrees_of ds) = length (nodes ds)"
    and "sum_list (degrees_of ds) = 2 * int (length (edges ds))"
  using compute_degrees_good [OF assms] by (auto simp: degrees_of_def)

lemma degree_report_valid:
  assumes "first_bad (length (nodes ds)) (edges ds) = None" "nodes ds \<noteq> []"
  shows "degree_report ds = (degree_lines (degrees_of ds), Inr (degrees_of ds, Max (set (degrees_of ds))))"
proof -
  from degrees_of_good(2) [OF assms(1)] assms(2) have "degrees_of ds \<noteq> []" by auto
  with degrees_of_good(1) [OF assms(1)] show ?thesis by (rule degree_report_good)
qed

lemma stats_empty:
  "nodes ds = [] \<Longrightarrow> stats ds = ([LNodes 0, LEdges (length (edges ds))], Inl ValueError)"
  by (simp add: stats_def coordinate_report_empty)

lemma stats_bad:
  "nodes ds \<noteq> [] \<Longrightarrow> first_bad (length (nodes ds)) (edges ds) = Some i \<Longrightarrow>
   stats ds = (coordinate_lines ds, Inl (index_error (length (nodes ds)) i))"
  by (simp add: stats_def coordinate_report_nonempty degree_report_bad)

lemma stats_one:
  assumes "length (nodes ds) = 1" "first_bad (length (nodes ds)) (edges ds) = None"
  shows "stats ds = (report_to_overlaps ds, Inl ValueError)"
proof -
  from assms(1) have ne: "nodes ds \<noteq> []" by auto
  from assms(1) have few: "length (nodes ds) < 2" by simp
  show ?thesis
    by (simp add: stats_def coordinate_report_nonempty [OF ne] degree_report_valid [OF assms(2) ne]
        overlap_report_def pairwise_report_few [OF few] report_to_overlaps_def overlap_line_def)
qed

lemma stats_no_edges:
  assumes "2 \<le> length (nodes ds)" "edges ds = []"
  shows "stats ds = (report_to_overlaps ds @ [pairwise_line_of ds], Inl ValueError)"
proof -
  from assms(1) have ne: "nodes ds \<noteq> []" by auto
  from assms(2) have ok: "first_bad (length (nodes ds)) (edges ds) = None" by simp
  show ?thesis
    by (simp add: stats_def coordinate_report_nonempty [OF ne] degree_report_valid [OF ok ne]
        overlap_report_def pairwise_report_many [OF assms(1)] edge_length_report_none [OF assms(2)]
        report_to_overlaps_def overlap_line_def pairwise_line_of_def sample_def)
qed

lemma stats_ok:
  assumes "2 \<le> length (nodes ds)" "first_bad (length (nodes ds)) (edges ds) = None" "edges ds \<noteq> []"
  shows "stats ds = (report_to_overlaps ds @ [pairwise_line_of ds, edge_line_of ds],
                     Inr (degrees_of ds, Max (set (degrees_of ds))))"
proof -
  from assms(1) have ne: "nodes ds \<noteq> []" by auto
  show ?thesis
    by (simp add: stats_def coordinate_report_nonempty [OF ne] degree_report_valid [OF assms(2) ne]
        overlap_report_def pairwise_report_many [OF assms(1)] edge_length_report_some [OF assms(2,3)]
        report_to_overlaps_def overlap_line_def pairwise_line_of_def sample_def edge_line_of_def Let_def)
qed

lemma until_savefig_empty:
  "nodes ds = [] \<Longrightarrow>
   until_savefig h ds = ([LNodes 0, LEdges (length (edges ds))], Inl ValueError)"
  by (simp add: until_savefig_def stats_empty)

lemma until_savefig_bad:
  "nodes ds \<noteq> [] \<Longrightarrow> first_bad (length (nodes ds)) (edges ds) = Some i \<Longrightarrow>
   until_savefig h ds = (coordinate_lines ds, Inl (index_error (length (nodes ds)) i))"
  by (simp add: until_savefig_def stats_bad)

lemma until_savefig_one:
  "length (nodes ds) = 1 \<Longrightarrow> first_bad (length (nodes ds)) (edges ds) = None \<Longrightarrow>
   until_savefig h ds = (report_to_overlaps ds, Inl ValueError)"
  by (simp add: until_savefig_def stats_one)

lemma until_savefig_no_edges:
  "2 \<le> length (nodes ds) \<Longrightarrow> edges ds = [] \<Longrightarrow>
   until_savefig h ds = (report_to_overlaps ds @ [pairwise_line_of ds], Inl ValueError)"
  by (simp add: until_savefig_def stats_no_edges)

lemma until_savefig_ok:
  "2 \<le> length (nodes ds) \<Longrightarrow> first_bad (length (nodes ds)) (edges ds) = None \<Longrightarrow> edges ds \<noteq> [] \<Longrightarrow>
   until_savefig h ds = (stats_report ds, Inr (figure h ds))"
  by (simp add: until_savefig_def stats_ok render_valid stats_report_def)

lemma run_empty:
  "nodes ds = [] \<Longrightarrow> run h ds = ([LNodes 0, LEdges (length (edges ds))], Inl ValueError)"
  by (simp add: run_def until_savefig_empty)

lemma run_bad:
  "nodes ds \<noteq> [] \<Longrightarrow> first_bad (length (nodes ds)) (edges ds) = Some i \<Longrightarrow>
   run h ds = (coordinate_lines ds, Inl (index_error (length (nodes ds)) i))"
  by (simp add: run_def until_savefig_bad)

lemma run_one:
  "length (nodes ds) = 1 \<Longrightarrow> first_bad (length (nodes ds)) (edges ds) = None \<Longrightarrow>
   run h ds = (report_to_overlaps ds, Inl ValueError)"
  by (simp add: run_def until_savefig_one)

lemma run_no_edges:
  "2 \<le> length (nodes ds) \<Longrightarrow> edges ds = [] \<Longrightarrow>
   run h ds = (report_to_overlaps ds @ [pairwise_line_of ds], Inl ValueError)"
  by (simp add: run_def until_savefig_no_edges)

lemma run_ok:
  "2 \<le> length (nodes ds) \<Longrightarrow> first_bad (length (nodes ds)) (edges ds) = None \<Longrightarrow> edges ds \<noteq> [] \<Longrightarrow>
   run h ds = (full_report ds, Inr (figure h ds))"
  by (simp add: run_def until_savefig_ok print_saved_def full_report_def)

lemma run_cases:
  obtains (empty) "nodes ds = []"
  | (bad) i where "nodes ds \<noteq> []" "first_bad (length (nodes ds)) (edges ds) = Some i"
  | (one) "length (nodes ds) = 1" "first_bad (length (nodes ds)) (edges ds) = None"
  | (no_edges) "2 \<le> length (nodes ds)" "edges ds = []"
  | (ok) "2 \<le> length (nodes ds)" "first_bad (length (nodes ds)) (edges ds) = None" "edges ds \<noteq> []"
proof (cases "nodes ds")
  case Nil
  then show ?thesis by (rule empty)
next
  case (Cons n ns)
  then have ne: "nodes ds \<noteq> []" by simp
  show ?thesis
  proof (cases "first_bad (length (nodes ds)) (edges ds)")
    case (Some i)
    with ne show ?thesis by (rule bad)
  next
    case None
    show ?thesis
    proof (cases "length (nodes ds) = 1")
      case True
      then show ?thesis using None by (rule one)
    next
      case False
      moreover from ne have "length (nodes ds) \<noteq> 0" by simp
      ultimately have two: "2 \<le> length (nodes ds)" by arith
      show ?thesis
      proof (cases "edges ds = []")
        case True
        with two show ?thesis by (rule no_edges)
      next
        case False
        with two None show ?thesis by (rule ok)
      qed
    qed
  qed
qed

section \<open>Failing runs\<close>





text \<open>
  Claim C4, as the script has it. On a document with no nodes the script stops at the
  first coordinate statistic: the minimum of the empty array of x coordinates raises
  numpy's empty-reduction \<open>ValueError\<close>, the exception that an empty edge list raises too.
  The two size lines are on the console by then; no minimum, maximum or standard
  deviation is printed, and no figure is written.
\<close>

theorem empty_dataset_fails_fast:
  "nodes ds = [] \<Longrightarrow>
     run h ds = ([LNodes 0, LEdges (length (edges ds))], Inl ValueError)
     \<and> until_savefig h ds = ([LNodes 0, LEdges (length (edges ds))], Inl ValueError)"
  by (simp add: run_empty until_savefig_empty)

theorem empty_dataset_fails_fast_witness:
  "run length_hash ds_empty = ([LNodes 0, LEdges 1], Inl ValueError)
   \<and> until_savefig length_hash ds_empty = ([LNodes 0, LEdges 1], Inl ValueError)"
  using empty_dataset_fails_fast [of ds_empty length_hash] by (simp add: ds_empty_def)

theorem empty_dataset_fails_fast_counterexample:
  "fst (run length_hash ds_empty) = [LNodes 0, LEdges 1]
   \<and> snd (run length_hash ds_empty) = Inl ValueError
   \<and> snd (run length_hash ds_no_edges) = Inl ValueError"
  by (simp add: run_empty run_no_edges ds_empty_def ds_no_edges_def)

text \<open>
  Claim C10. With exactly one node the sample of pairwise distances is empty and its
  minimum raises, so the script fails on every document with fewer than two nodes.
  With one node and edge indices that numpy accepts, it fails after the overlap line.
\<close>

theorem fewer_than_two_nodes_fails:
  "(length (nodes ds) = 1 \<longrightarrow>
      sample ds = [] \<and> np_min (sample ds) = Inl ValueError \<and>
      (first_bad (length (nodes ds)) (edges ds) = None \<longrightarrow>
         run h ds = (report_to_overlaps ds, Inl ValueError))) \<and>
   (length (nodes ds) < 2 \<longrightarrow> (\<exists>e. snd (run h ds) = Inl e))"
proof -
  have few: "\<exists>e. snd (run h ds) = Inl e" if "length (nodes ds) < 2"
  proof (cases ds rule: run_cases)
    case empty
    then show ?thesis by (simp add: run_empty)
  next
    case (bad i)
    then show ?thesis by (simp add: run_bad)
  next
    case one
    then show ?thesis by (simp add: run_one)
  next
    case no_edges
    with that show ?thesis by simp
  next
    case ok
    with that show ?thesis by simp
  qed
  have "sample ds = []" if "length (nodes ds) = 1"
    using that dists_Nil_iff [of "map node_x (nodes ds)" "map node_y (nodes ds)"]
    by (simp add: sample_def)
  then show ?thesis using few by (auto simp: np_min_Nil run_one)
qed

theorem fewer_than_two_nodes_fails_witness:
  "length (nodes ds_single) = 1 \<and> sample ds_single = []
   \<and> run length_hash ds_single = (report_to_overlaps ds_single, Inl ValueError)"
proof -
  have "first_bad (length (nodes ds_single)) (edges ds_single) = None"
    by (simp add: ds_single_def np_valid_def)
  moreover have "length (nodes ds_single) = 1" by (simp add: ds_single_def)
  ultimately show ?thesis
    using fewer_than_two_nodes_fails [of ds_single length_hash] by simp
qed




section \<open>What a run leaves behind\<close>





lemma run_result:
  "run h ds = (out, Inr img) \<longleftrightarrow>
     2 \<le> length (nodes ds) \<and> first_bad (length (nodes ds)) (edges ds) = None \<and> edges ds \<noteq> []
     \<and> out = full_report ds \<and> img = figure h ds"
proof (cases ds rule: run_cases)
  case empty
  then show ?thesis by (simp add: run_empty)
next
  case (bad i)
  then show ?thesis by (simp add: run_bad)
next
  case one
  then show ?thesis by (simp add: run_one)
next
  case no_edges
  then show ?thesis by (simp add: run_no_edges)
next
  case ok
  then show ?thesis by (auto simp: run_ok)
qed





text \<open>
  Claim C3, as the script has it. With at least one node and no edge the script never
  reaches the node sizes: it raises the empty-reduction \<open>ValueError\<close>, at the minimum of the
  pairwise distances when there is one node and at the minimum of the edge lengths when
  there are more, and no figure is written. The sizes are computed only in a run with
  at least one edge; the maximum degree is then at least 1, the division is by a
  positive number, and every size is \<open>2 + degree / max_degree * 30\<close>.
\<close>

theorem no_edges_fails_before_sizes:
  "(nodes ds \<noteq> [] \<and> edges ds = [] \<longrightarrow>
      run h ds = (if length (nodes ds) = 1 then report_to_overlaps ds
                  else report_to_overlaps ds @ [pairwise_line_of ds], Inl ValueError))
   \<and> (snd (run h ds) = Inr img \<longrightarrow>
        edges ds \<noteq> [] \<and> 1 \<le> Max (set (degrees_of ds))
        \<and> panel1_sizes img =
            map (\<lambda>d. Some (2 + real_of_int d / real_of_int (Max (set (degrees_of ds))) * 30)) (degrees_of ds))"
proof (intro conjI impI)
  assume a: "nodes ds \<noteq> [] \<and> edges ds = []"
  show "run h ds = (if length (nodes ds) = 1 then report_to_overlaps ds
                  else report_to_overlaps ds @ [pairwise_line_of ds], Inl ValueError)"
  proof (cases "length (nodes ds) = 1")
    case True
    with a show ?thesis by (simp add: run_one)
  next
    case False
    moreover from a have "length (nodes ds) \<noteq> 0" by simp
    ultimately have "2 \<le> length (nodes ds)" by arith
    with a False show ?thesis by (simp add: run_no_edges)
  qed
next
  assume "snd (run h ds) = Inr img"
  then have "run h ds = (fst (run h ds), Inr img)" by (metis prod.collapse)
  then have r: "first_bad (length (nodes ds)) (edges ds) = None" "edges ds \<noteq> []" "img = figure h ds"
    using run_result [of h ds "fst (run h ds)" img] by simp_all
  from r(2) show "edges ds \<noteq> []" .
  from r(2) have "0 < length (edges ds)" by simp
  with degrees_of_good(3) [OF r(1)] show m: "1 \<le> Max (set (degrees_of ds))"
    by (rule max_degree_positive)
  then show "panel1_sizes img =
            map (\<lambda>d. Some (2 + real_of_int d / real_of_int (Max (set (degrees_of ds))) * 30)) (degrees_of ds)"
    by (simp add: r(3) figure_def sizes_def np_divide_def)
qed

theorem no_edges_fails_before_sizes_witness:
  "run length_hash ds_no_edges = (report_to_overlaps ds_no_edges @ [pairwise_line_of ds_no_edges], Inl ValueError)
   \<and> snd (run length_hash ds_wrap) = Inr (figure length_hash ds_wrap)
   \<and> 1 \<le> Max (set (degrees_of ds_wrap))"
proof -
  have a: "nodes ds_no_edges \<noteq> [] \<and> edges ds_no_edges = []" "length (nodes ds_no_edges) \<noteq> 1"
    by (simp_all add: ds_no_edges_def)
  have "first_bad (length (nodes ds_wrap)) (edges ds_wrap) = None"
    by (simp add: ds_wrap_def np_valid_def)
  then have b: "snd (run length_hash ds_wrap) = Inr (figure length_hash ds_wrap)"
    by (simp add: run_ok ds_wrap_def)
  from a b no_edges_fails_before_sizes [of ds_no_edges length_hash "figure length_hash ds_no_edges"]
    no_edges_fails_before_sizes [of ds_wrap length_hash "figure length_hash ds_wrap"]
  show ?thesis by simp
qed

theorem no_edges_fails_before_sizes_counterexample:
  "snd (run length_hash ds_no_edges) = Inl ValueError \<and> sizes [0, 0] 0 = [None, None]"
  by (simp add: run_no_edges ds_no_edges_def sizes_def np_divide_def)

section \<open>Hues and the string hash of the interpreter\<close>

lemma hues_range: "u \<in> set (hues h n) \<Longrightarrow> 0 \<le> u \<and> u < 360"
  by (auto simp: hues_def)

lemma run_hash_independent:
  "fst (run h ds) = fst (run h' ds) \<and> (snd (run h ds) = Inl e \<longleftrightarrow> snd (run h' ds) = Inl e)"
proof (cases ds rule: run_cases)
  case empty
  then show ?thesis by (simp add: run_empty)
next
  case (bad i)
  then show ?thesis by (simp add: run_bad)
next
  case one
  then show ?thesis by (simp add: run_one)
next
  case no_edges
  then show ?thesis by (simp add: run_no_edges)
next
  case ok
  then show ?thesis by (simp add: run_ok)
qed

text \<open>
  Claim C1, as the script has it. Within one run the hue of node \<open>i\<close> is
  \<open>hash(str(i)) mod 360\<close>, a number in \<open>[0, 360)\<close> that depends on the index and on the string
  hash of the running interpreter. The printed report, the exception of a failing run,
  the size of the figure in pixels (4500 by 1500) and everything in the figure but the
  hues do not depend on the hash: two runs on the same document agree on them.
\<close>

theorem runs_agree_up_to_hues:
  "fst (run h ds) = fst (run h' ds)
   \<and> (snd (run h ds) = Inl e \<longleftrightarrow> snd (run h' ds) = Inl e)
   \<and> (snd (run h ds) = Inr img \<longrightarrow>
        width_px img = 4500 \<and> height_px img = 1500
        \<and> panel1_hues img = map (\<lambda>i. h (str i) mod 360) [0 ..< length (nodes ds)]
        \<and> (\<forall>u \<in> set (panel1_hues img). 0 \<le> u \<and> u < 360)
        \<and> snd (run h' ds) = Inr (img\<lparr>panel1_hues := hues h' (length (nodes ds))\<rparr>))"
proof (intro conjI impI)
  show "fst (run h ds) = fst (run h' ds)"
    using run_hash_independent [of h ds h' e] by simp
  show "(snd (run h ds) = Inl e) = (snd (run h' ds) = Inl e)"
    using run_hash_independent [of h ds h' e] by simp
next
  assume "snd (run h ds) = Inr img"
  then have "run h ds = (fst (run h ds), Inr img)" by (metis prod.collapse)
  then have r: "2 \<le> length (nodes ds)" "first_bad (length (nodes ds)) (edges ds) = None"
      "edges ds \<noteq> []" "img = figure h ds"
    using run_result [of h ds "fst (run h ds)" img] by simp_all
  show "width_px img = 4500" "height_px img = 1500" by (simp_all add: r(4) figure_def)
  show hu: "panel1_hues img = map (\<lambda>i. h (str i) mod 360) [0 ..< length (nodes ds)]"
    by (simp add: r(4) figure_def hues_def)
  show "\<forall>u \<in> set (panel1_hues img). 0 \<le> u \<and> u < 360"
    using hues_range [of _ h "length (nodes ds)"] by (simp add: r(4) figure_def)
  show "snd (run h' ds) = Inr (img\<lparr>panel1_hues := hues h' (length (nodes ds))\<rparr>)"
    using r(1-3) by (simp add: run_ok r(4) figure_def)
qed

theorem runs_agree_up_to_hues_witness:
  "fst (run length_hash ds_wrap) = fst (run zero_hash ds_wrap)
   \<and> snd (run length_hash ds_wrap) = Inr (figure length_hash ds_wrap)
   \<and> width_px (figure length_hash ds_wrap) = 4500 \<and> height_px (figure length_hash ds_wrap) = 1500
   \<and> snd (run zero_hash ds_wrap) = Inr ((figure length_hash ds_wrap)\<lparr>panel1_hues := hues zero_hash 2\<rparr>)"
proof -
  have "first_bad (length (nodes ds_wrap)) (edges ds_wrap) = None"
    by (simp add: ds_wrap_def np_valid_def)
  then have a: "snd (run length_hash ds_wrap) = Inr (figure length_hash ds_wrap)"
    by (simp add: run_ok ds_wrap_def)
  have b: "length (nodes ds_wrap) = 2" by (simp add: ds_wrap_def)
  from a b runs_agree_up_to_hues [of length_hash ds_wrap zero_hash ValueError "figure length_hash ds_wrap"]
  show ?thesis by simp
qed

theorem runs_agree_up_to_hues_counterexample:
  "snd (run length_hash ds_wrap) = Inr (figure length_hash ds_wrap)
   \<and> snd (run zero_hash ds_wrap) = Inr (figure zero_hash ds_wrap)
   \<and> panel1_hues (figure length_hash ds_wrap) = [1, 1]
   \<and> panel1_hues (figure zero_hash ds_wrap) = [0, 0]"
proof -
  have ok: "first_bad (length (nodes ds_wrap)) (edges ds_wrap) = None"
    by (simp add: ds_wrap_def np_valid_def)
  have a: "snd (run h ds_wrap) = Inr (figure h ds_wrap)" for h
    using ok by (simp add: run_ok ds_wrap_def)
  have "[0 ..< 2] = [0, Suc 0]" by (simp add: upt_rec)
  then have "hues h 2 = [h (str 0) mod 360, h (str (Suc 0)) mod 360]" for h
    by (simp add: hues_def)
  moreover have "length (str 0) = 1" by (subst str.simps) simp
  moreover have "length (str (Suc 0)) = 1" by (subst str.simps) simp
  ultimately have "hues length_hash 2 = [1, 1]" "hues zero_hash 2 = [0, 0]"
    by (simp_all add: length_hash_def zero_hash_def)
  moreover have "length (nodes ds_wrap) = 2" by (simp add: ds_wrap_def)
  then have "panel1_hues (figure h ds_wrap) = hues h 2" for h by (simp add: figure_def)
  ultimately show ?thesis using a by simp
qed

section \<open>The overlap count\<close>

lemma map_of_counter_add:
  "map_of (counter_add k acc) = (map_of acc)(k \<mapsto> (case map_of acc k of None \<Rightarrow> 1 | Some c \<Rightarrow> c + 1))"
  by (induction k acc rule: counter_add.induct) (auto simp: fun_eq_iff)

lemma keys_counter_add:
  "map fst (counter_add k acc) = (if k \<in> fst ` set acc then map fst acc else map fst acc @ [k])"
  by (induction k acc rule: counter_add.induct) auto

lemma distinct_counter_add:
  "distinct (map fst acc) \<Longrightarrow> distinct (map fst (counter_add k acc))"
  by (simp add: keys_counter_add)

lemma fold_counter_add:
  "distinct (map fst acc) \<Longrightarrow>
   distinct (map fst (fold counter_add ks acc))
   \<and> fst ` set (fold counter_add ks acc) = fst ` set acc \<union> set ks
   \<and> (\<forall>k. case_option 0 id (map_of (fold counter_add ks acc) k)
            = case_option 0 id (map_of acc k) + count_list ks k)"
proof (induction ks arbitrary: acc)
  case Nil
  then show ?case by simp
next
  case (Cons a ks)
  have d: "distinct (map fst (counter_add a acc))"
    using Cons.prems by (rule distinct_counter_add)
  have keys: "fst ` set (counter_add a acc) = insert a (fst ` set acc)"
    using keys_counter_add [of a acc] by (metis (no_types, lifting) insert_absorb list.set_map
        rotate1.simps(2) set_rotate1 list.simps(15))
  have cnt: "case_option 0 id (map_of (counter_add a acc) k)
              = case_option 0 id (map_of acc k) + (if a = k then 1 else 0)" for k
    by (simp add: map_of_counter_add split: option.split)
  from Cons.IH [OF d] keys cnt show ?case by (auto simp: add.assoc)
qed

lemma Counter_distinct: "distinct (map fst (Counter ks))"
  using fold_counter_add [of "[]" ks] by (simp add: Counter_def)

lemma Counter_keys: "fst ` set (Counter ks) = set ks"
  using fold_counter_add [of "[]" ks] by (simp add: Counter_def)

lemma Counter_entry: "(k, c) \<in> set (Counter ks) \<longleftrightarrow> k \<in> set ks \<and> c = count_list ks k"
proof -
  have cnt: "case_option 0 id (map_of (Counter ks) k) = count_list ks k"
    using fold_counter_add [of "[]" ks] by (simp add: Counter_def)
  have m: "(k, c) \<in> set (Counter ks) \<longleftrightarrow> map_of (Counter ks) k = Some c" for c
    using Counter_distinct [of ks] by simp
  show ?thesis
  proof
    assume a: "(k, c) \<in> set (Counter ks)"
    then have "k \<in> fst ` set (Counter ks)" by force
    then have "k \<in> set ks" by (simp add: Counter_keys)
    moreover from a m cnt have "c = count_list ks k" by simp
    ultimately show "k \<in> set ks \<and> c = count_list ks k" by simp
  next
    assume a: "k \<in> set ks \<and> c = count_list ks k"
    then have "k \<in> fst ` set (Counter ks)" by (simp add: Counter_keys)
    then obtain c' where c': "(k, c') \<in> set (Counter ks)" by auto
    with m cnt have "c' = count_list ks k" by simp
    with a c' show "(k, c) \<in> set (Counter ks)" by simp
  qed
qed

lemma Counter_overlaps:
  "length (filter (\<lambda>c. 1 < c) (map snd (Counter ks))) = card {k. 1 < count_list ks k}"
proof -
  let ?al = "Counter ks"
  let ?S = "{p \<in> set ?al. 1 < snd p}"
  have dist: "distinct ?al" using Counter_distinct [of ks] by (simp add: distinct_map)
  have "length (filter (\<lambda>c. 1 < c) (map snd ?al)) = length (filter (\<lambda>p. 1 < snd p) ?al)"
    by (simp add: filter_map comp_def)
  also have "\<dots> = card ?S"
    using dist by (simp add: distinct_card [symmetric] distinct_filter)
  also have "\<dots> = card (fst ` ?S)"
  proof -
    have "inj_on fst (set ?al)" using Counter_distinct [of ks] by (simp add: distinct_map)
    then have "inj_on fst ?S" by (rule inj_on_subset) auto
    then show ?thesis by (simp add: card_image)
  qed
  also have "fst ` ?S = {k. 1 < count_list ks k}"
  proof (intro set_eqI iffI)
    fix k assume "k \<in> fst ` ?S"
    then obtain c where "(k, c) \<in> set ?al" "1 < c" by auto
    then show "k \<in> {k. 1 < count_list ks k}" by (simp add: Counter_entry)
  next
    fix k assume "k \<in> {k. 1 < count_list ks k}"
    then have c: "1 < count_list ks k" by simp
    then have "k \<in> set ks" using count_list_0_iff [of ks k] by force
    with c have "(k, count_list ks k) \<in> ?S" by (simp add: Counter_entry)
    then show "k \<in> fst ` ?S" by force
  qed
  finally show ?thesis .
qed

lemma rounded_keys:
  "map (\<lambda>(u, v). (py_round1 u, py_round1 v)) (zip (map node_x ns) (map node_y ns)) = map rounded_xy ns"
  by (induction ns) (simp_all add: rounded_xy_def)

lemma occupants_count: "occupants ns p = count_list (map rounded_xy ns) p"
  by (induction ns) (simp_all add: occupants_def)

lemma overlaps_occupants:
  "overlaps (map node_x ns) (map node_y ns) = card {p. 1 < occupants ns p}"
  by (simp only: overlaps_def rounded_def rounded_keys Counter_overlaps occupants_count)

lemma occupants_mset: "mset ns = mset ns' \<Longrightarrow> occupants ns p = occupants ns' p"
proof -
  assume "mset ns = mset ns'"
  then have "mset (filter (\<lambda>n. rounded_xy n = p) ns) = mset (filter (\<lambda>n. rounded_xy n = p) ns')"
    by simp
  then show ?thesis unfolding occupants_def by (rule mset_eq_length)
qed

lemma round_half_even_iff:
  "round_half_even r = k \<longleftrightarrow>
     (\<bar>r - of_int k\<bar> < 1 / 2 \<or> (\<bar>r - of_int k\<bar> = 1 / 2 \<and> even k))"
proof -
  define f where "f = \<lfloor>r\<rfloor>"
  have fl: "of_int f \<le> r" "r < of_int f + 1" by (simp_all add: f_def)
  have rhe: "round_half_even r =
      (if r - of_int f < 1 / 2 then f else if 1 / 2 < r - of_int f then f + 1
       else if even f then f else f + 1)"
    by (simp add: round_half_even_def Let_def f_def)
  consider "k \<le> f - 1" | "k = f" | "k = f + 1" | "f + 2 \<le> k" by linarith
  then show ?thesis
  proof cases
    case 1
    then have "real_of_int k \<le> of_int f - 1" by linarith
    with fl 1 show ?thesis unfolding rhe by (auto split: if_splits)
  next
    case 2
    with fl show ?thesis unfolding rhe by (auto split: if_splits)
  next
    case 3
    with fl show ?thesis unfolding rhe by (auto split: if_splits)
  next
    case 4
    then have "of_int f + 2 \<le> real_of_int k" by linarith
    with fl 4 show ?thesis unfolding rhe by (auto split: if_splits)
  qed
qed

lemma py_round1_iff:
  "py_round1 v = real_of_int k / 10 \<longleftrightarrow>
     (\<bar>10 * v - of_int k\<bar> < 1 / 2 \<or> (\<bar>10 * v - of_int k\<bar> = 1 / 2 \<and> even k))"
proof -
  have "py_round1 v = real_of_int k / 10 \<longleftrightarrow> round_half_even (v * 10) = k"
    by (simp add: py_round1_def)
  then show ?thesis by (simp add: round_half_even_iff mult.commute)
qed

text \<open>
  Claim C6. Rounding to one decimal yields the multiple of one tenth nearest to the
  value, the even multiple of the two when the value lies halfway. The overlap count
  that the script prints is the number of distinct positions, both coordinates so
  rounded, at which more than one node of the sequence lies. It is the same for two
  node sequences that are permutations of each other.
\<close>

theorem overlaps_counts_shared_positions:
  "(py_round1 v = real_of_int k / 10 \<longleftrightarrow>
      (\<bar>10 * v - real_of_int k\<bar> < 1 / 2 \<or> (\<bar>10 * v - real_of_int k\<bar> = 1 / 2 \<and> even k)))
   \<and> rounded_xy n = (py_round1 (node_x n), py_round1 (node_y n))
   \<and> occupants (nodes ds) p = length (filter (\<lambda>n. rounded_xy n = p) (nodes ds))
   \<and> overlaps (map node_x (nodes ds)) (map node_y (nodes ds)) = card {p. 1 < occupants (nodes ds) p}
   \<and> overlap_report ds = ([LOverlaps (card {p. 1 < occupants (nodes ds) p})], Inr ())
   \<and> (mset (nodes ds) = mset (nodes ds') \<longrightarrow>
        overlaps (map node_x (nodes ds)) (map node_y (nodes ds))
          = overlaps (map node_x (nodes ds')) (map node_y (nodes ds')))"
proof (intro conjI impI)
  show "py_round1 v = real_of_int k / 10 \<longleftrightarrow>
      (\<bar>10 * v - real_of_int k\<bar> < 1 / 2 \<or> (\<bar>10 * v - real_of_int k\<bar> = 1 / 2 \<and> even k))"
    by (rule py_round1_iff)
  show "rounded_xy n = (py_round1 (node_x n), py_round1 (node_y n))"
    by (simp add: rounded_xy_def)
  show "occupants (nodes ds) p = length (filter (\<lambda>n. rounded_xy n = p) (nodes ds))"
    by (simp add: occupants_def)
  show "overlaps (map node_x (nodes ds)) (map node_y (nodes ds)) = card {p. 1 < occupants (nodes ds) p}"
    by (rule overlaps_occupants)
  then show "overlap_report ds = ([LOverlaps (card {p. 1 < occupants (nodes ds) p})], Inr ())"
    by (simp add: overlap_report_def)
next
  assume "mset (nodes ds) = mset (nodes ds')"
  then have "occupants (nodes ds) = occupants (nodes ds')"
    by (intro ext occupants_mset)
  then show "overlaps (map node_x (nodes ds)) (map node_y (nodes ds))
          = overlaps (map node_x (nodes ds')) (map node_y (nodes ds'))"
    by (simp add: overlaps_occupants)
qed

theorem overlaps_counts_shared_positions_witness:
  "py_round1 0.04 = 0 \<and> py_round1 0.25 = 0.2 \<and> py_round1 0.35 = 0.4 \<and> py_round1 (- 1.26) = - 1.3
   \<and> rounded_xy n1 = (0, 0) \<and> rounded_xy n0 = (0, 0) \<and> rounded_xy n2 = (10, 10)
   \<and> occupants (nodes ds_spec) (0, 0) = 2
   \<and> overlaps (map node_x (nodes ds_spec)) (map node_y (nodes ds_spec)) = 1
   \<and> card {p. 1 < occupants (nodes ds_spec) p} = 1
   \<and> overlaps (map node_x (nodes ds_spec)) (map node_y (nodes ds_spec))
       = overlaps (map node_x (nodes \<lparr>nodes = [n2, n0, n1], edges = []\<rparr>))
                  (map node_y (nodes \<lparr>nodes = [n2, n0, n1], edges = []\<rparr>))"
proof -
  let ?ds' = "\<lparr>nodes = [n2, n0, n1], edges = []\<rparr>"
  note t = overlaps_counts_shared_positions
  have r: "py_round1 0.04 = 0" "py_round1 0.25 = 0.2" "py_round1 0.35 = 0.4" "py_round1 (- 1.26) = - 1.3"
    "py_round1 0 = 0" "py_round1 10 = 10"
    using t [of "0.04" 0 n0 ds_spec "(0, 0)" ?ds'] t [of "0.25" 2 n0 ds_spec "(0, 0)" ?ds']
      t [of "0.35" 4 n0 ds_spec "(0, 0)" ?ds'] t [of "- 1.26" "- 13" n0 ds_spec "(0, 0)" ?ds']
      t [of 0 0 n0 ds_spec "(0, 0)" ?ds'] t [of 10 100 n0 ds_spec "(0, 0)" ?ds']
    by simp_all
  have xy: "rounded_xy n1 = (0, 0)" "rounded_xy n0 = (0, 0)" "rounded_xy n2 = (10, 10)"
    using r by (simp_all add: rounded_xy_def n0_def n1_def n2_def)
  have occ: "occupants (nodes ds_spec) (0, 0) = 2"
    using xy by (simp add: occupants_def ds_spec_def)
  have a: "overlaps (map node_x (nodes ds_spec)) (map node_y (nodes ds_spec)) = 1"
    using r by (simp add: ds_spec_def overlaps_def rounded_def Counter_def n0_def n1_def n2_def)
  have b: "mset (nodes ds_spec) = mset (nodes ?ds')"
    by (simp add: ds_spec_def)
  from a b r xy occ t [of 0 0 n0 ds_spec "(0, 0)" ?ds']
  show ?thesis by simp
qed

section \<open>The pairwise distance statistics\<close>









section \<open>The window of the middle panel\<close>





end
